theory Spec2Isabelle
  imports Main "HOL-Library.Sublist"
begin

section \<open>Python strings\<close>

text \<open>
  A Python \<open>str\<close> is modelled as a \<open>string\<close>. \<open>s.replace(old, new)\<close> scans the
  subject from the left and replaces every non-overlapping occurrence of \<open>old\<close>;
  with an empty \<open>old\<close> it puts \<open>new\<close> before every character and at the end.
\<close>

fun replace_from :: "string \<Rightarrow> string \<Rightarrow> string \<Rightarrow> string" where
  "replace_from old new [] = []"
| "replace_from old new (c # cs) =
     (if prefix old (c # cs) then new @ replace_from old new (drop (length old - 1) cs)
      else c # replace_from old new cs)"

definition replace :: "string \<Rightarrow> string \<Rightarrow> string \<Rightarrow> string" where
  "replace old new s =
     (if old = [] then new @ concat (map (\<lambda>c. c # new) s) else replace_from old new s)"

section \<open>Python numbers\<close>

text \<open>
  The evaluator hands arithmetic to Python's \<open>eval\<close>, \<open>round\<close> and \<open>str\<close>, so the model
  needs Python's numbers: unbounded integers and IEEE 754 binary64 floats (Python 3).
  A finite float is \<open>Finite s m p\<close>, the value \<open>(-1)\<^sup>s * m * 2\<^sup>p\<close> with sign bit \<open>s\<close>, in the
  unique form with \<open>2\<^sup>5\<^sup>2 \<le> m < 2\<^sup>5\<^sup>3\<close> and \<open>-1074 \<le> p \<le> 971\<close>, or \<open>m < 2\<^sup>5\<^sup>2\<close> and
  \<open>p = -1074\<close> (subnormal), or \<open>m = 0\<close> and \<open>p = 0\<close> (a signed zero). All arithmetic is done
  on integers: a rational is a numerator and a positive denominator.
\<close>

datatype pyfloat = Finite bool int int | Infinity bool | NaN

function count_digits :: "int \<Rightarrow> int \<Rightarrow> int \<Rightarrow> int \<Rightarrow> int" where
  "count_digits b n k pw =
     (if n < pw \<or> pw \<le> 0 \<or> b \<le> 1 then k else count_digits b n (k + 1) (b * pw))"
  by pat_completeness auto
termination
proof (relation "measure (\<lambda>(b, n, k, pw). nat (n + 1 - pw))", goal_cases)
  case 1
  show ?case by simp
next
  case (2 b n k pw)
  then have "pw < b * pw" by (simp add: mult_less_cancel_right2)
  with 2 show ?case by simp
qed

declare count_digits.simps [simp del]

definition bit_length :: "int \<Rightarrow> int" where
  "bit_length n = count_digits 2 n 0 1"

definition dec_length :: "int \<Rightarrow> int" where
  "dec_length n = count_digits 10 n 0 1"

definition nearest_even :: "int \<Rightarrow> int \<Rightarrow> int \<Rightarrow> int" where
  "nearest_even f r d =
     (if 2 * r < d then f else if d < 2 * r then f + 1 else if even f then f else f + 1)"

definition round_half_even :: "int \<Rightarrow> int \<Rightarrow> int" where
  "round_half_even n d = nearest_even (n div d) (n mod d) d"

definition scaled_le :: "int \<Rightarrow> int \<Rightarrow> int \<Rightarrow> int \<Rightarrow> bool" where
  "scaled_le b d k n = (if 0 \<le> k then d * b ^ nat k \<le> n else d \<le> n * b ^ nat (- k))"

definition floor_log_at :: "int \<Rightarrow> int \<Rightarrow> int \<Rightarrow> int \<Rightarrow> int" where
  "floor_log_at b n d k = (if scaled_le b d k n then k else k - 1)"

definition floor_log2 :: "int \<Rightarrow> int \<Rightarrow> int" where
  "floor_log2 n d = floor_log_at 2 n d (bit_length n - bit_length d)"

definition round_scaled :: "int \<Rightarrow> int \<Rightarrow> int \<Rightarrow> int \<Rightarrow> int" where
  "round_scaled b n d k =
     (if 0 \<le> k then round_half_even n (d * b ^ nat k) else round_half_even (n * b ^ nat (- k)) d)"

definition binary64_norm :: "int \<Rightarrow> int \<Rightarrow> (int \<times> int) option" where
  "binary64_norm m p =
     (if m = 0 then Some (0, 0)
      else if m = 2 ^ 53 then (if 971 < p + 1 then None else Some (2 ^ 52, p + 1))
      else if 971 < p then None else Some (m, p))"

definition binary64_at :: "int \<Rightarrow> int \<Rightarrow> int \<Rightarrow> (int \<times> int) option" where
  "binary64_at n d p = binary64_norm (round_scaled 2 n d p) p"

definition to_binary64 :: "int \<Rightarrow> int \<Rightarrow> (int \<times> int) option" where
  "to_binary64 n d =
     (if n = 0 then Some (0, 0) else binary64_at n d (max (floor_log2 n d - 52) (- 1074)))"

datatype pynum = PInt int | PFloat pyfloat

datatype pyerr = SyntaxError | TypeError | ZeroDivisionError | OverflowError | KeyError
  | UnknownConstraintKind string

function int_digits :: "int \<Rightarrow> string" where
  "int_digits n =
     (if n < 10 then [''0123456789'' ! nat n]
      else int_digits (n div 10) @ [''0123456789'' ! nat (n mod 10)])"
  by pat_completeness auto
termination
  by (relation "measure nat") auto

declare int_digits.simps [simp del]

definition str_int :: "int \<Rightarrow> string" where
  "str_int i = (if i < 0 then CHR ''-'' # int_digits (- i) else int_digits i)"

definition num_of :: "int \<Rightarrow> int \<Rightarrow> int" where
  "num_of m p = (if 0 \<le> p then m * 2 ^ nat p else m)"

definition den_of :: "int \<Rightarrow> int" where
  "den_of p = (if 0 \<le> p then 1 else 2 ^ nat (- p))"

definition signed :: "bool \<Rightarrow> int \<Rightarrow> int" where
  "signed s n = (if s then - n else n)"

definition mk_float :: "bool \<Rightarrow> int \<Rightarrow> int \<Rightarrow> pyfloat" where
  "mk_float s n d = (case to_binary64 n d of None \<Rightarrow> Infinity s | Some (m, p) \<Rightarrow> Finite s m p)"

fun float_neg :: "pyfloat \<Rightarrow> pyfloat" where
  "float_neg (Finite s m p) = Finite (\<not> s) m p"
| "float_neg (Infinity s) = Infinity (\<not> s)"
| "float_neg NaN = NaN"

definition float_of_sum :: "bool \<Rightarrow> int \<Rightarrow> int \<Rightarrow> pyfloat" where
  "float_of_sum both_neg n d = (if n = 0 then Finite both_neg 0 0 else mk_float (n < 0) \<bar>n\<bar> d)"

fun float_add :: "pyfloat \<Rightarrow> pyfloat \<Rightarrow> pyfloat" where
  "float_add (Finite s1 m1 p1) (Finite s2 m2 p2) =
     float_of_sum (s1 \<and> s2)
       (signed s1 (num_of m1 p1) * den_of p2 + signed s2 (num_of m2 p2) * den_of p1)
       (den_of p1 * den_of p2)"
| "float_add (Finite s1 m1 p1) (Infinity s2) = Infinity s2"
| "float_add (Infinity s1) (Finite s2 m2 p2) = Infinity s1"
| "float_add (Infinity s1) (Infinity s2) = (if s1 = s2 then Infinity s1 else NaN)"
| "float_add NaN y = NaN"
| "float_add x NaN = NaN"

definition float_sub :: "pyfloat \<Rightarrow> pyfloat \<Rightarrow> pyfloat" where
  "float_sub x y = float_add x (float_neg y)"

fun float_mul :: "pyfloat \<Rightarrow> pyfloat \<Rightarrow> pyfloat" where
  "float_mul (Finite s1 m1 p1) (Finite s2 m2 p2) =
     mk_float (s1 \<noteq> s2) (num_of m1 p1 * num_of m2 p2) (den_of p1 * den_of p2)"
| "float_mul (Finite s1 m1 p1) (Infinity s2) = (if m1 = 0 then NaN else Infinity (s1 \<noteq> s2))"
| "float_mul (Infinity s1) (Finite s2 m2 p2) = (if m2 = 0 then NaN else Infinity (s1 \<noteq> s2))"
| "float_mul (Infinity s1) (Infinity s2) = Infinity (s1 \<noteq> s2)"
| "float_mul NaN y = NaN"
| "float_mul x NaN = NaN"

fun float_div :: "pyfloat \<Rightarrow> pyfloat \<Rightarrow> pyerr + pyfloat" where
  "float_div (Finite s1 m1 p1) (Finite s2 m2 p2) =
     (if m2 = 0 then Inl ZeroDivisionError
      else Inr (mk_float (s1 \<noteq> s2) (num_of m1 p1 * den_of p2) (den_of p1 * num_of m2 p2)))"
| "float_div (Infinity s1) (Finite s2 m2 p2) =
     (if m2 = 0 then Inl ZeroDivisionError else Inr (Infinity (s1 \<noteq> s2)))"
| "float_div NaN (Finite s2 m2 p2) = (if m2 = 0 then Inl ZeroDivisionError else Inr NaN)"
| "float_div (Finite s1 m1 p1) (Infinity s2) = Inr (Finite (s1 \<noteq> s2) 0 0)"
| "float_div (Infinity s1) (Infinity s2) = Inr NaN"
| "float_div NaN (Infinity s2) = Inr NaN"
| "float_div x NaN = Inr NaN"

definition int_to_float :: "int \<Rightarrow> pyerr + pyfloat" where
  "int_to_float i =
     (case to_binary64 \<bar>i\<bar> 1 of None \<Rightarrow> Inl OverflowError
      | Some (m, p) \<Rightarrow> Inr (Finite (i < 0) m p))"

definition int_truediv :: "int \<Rightarrow> int \<Rightarrow> pyerr + pyfloat" where
  "int_truediv a b =
     (if b = 0 then Inl ZeroDivisionError
      else case to_binary64 \<bar>a\<bar> \<bar>b\<bar> of None \<Rightarrow> Inl OverflowError
           | Some (m, p) \<Rightarrow> Inr (Finite ((a < 0) \<noteq> (b < 0)) m p))"

definition float_binop :: "char \<Rightarrow> pyfloat \<Rightarrow> pyfloat \<Rightarrow> pyerr + pyfloat" where
  "float_binop op x y =
     (if op = CHR ''+'' then Inr (float_add x y)
      else if op = CHR ''-'' then Inr (float_sub x y)
      else if op = CHR ''*'' then Inr (float_mul x y)
      else float_div x y)"

fun py_binop :: "char \<Rightarrow> pynum \<Rightarrow> pynum \<Rightarrow> pyerr + pynum" where
  "py_binop op (PInt a) (PInt b) =
     (if op = CHR ''+'' then Inr (PInt (a + b))
      else if op = CHR ''-'' then Inr (PInt (a - b))
      else if op = CHR ''*'' then Inr (PInt (a * b))
      else map_sum id PFloat (int_truediv a b))"
| "py_binop op (PFloat x) (PFloat y) = map_sum id PFloat (float_binop op x y)"
| "py_binop op (PInt a) (PFloat y) =
     (case int_to_float a of Inl e \<Rightarrow> Inl e
      | Inr x \<Rightarrow> map_sum id PFloat (float_binop op x y))"
| "py_binop op (PFloat x) (PInt b) =
     (case int_to_float b of Inl e \<Rightarrow> Inl e
      | Inr y \<Rightarrow> map_sum id PFloat (float_binop op x y))"

fun py_neg :: "pynum \<Rightarrow> pynum" where
  "py_neg (PInt a) = PInt (- a)"
| "py_neg (PFloat x) = PFloat (float_neg x)"

fun py_round2 :: "pynum \<Rightarrow> pyerr + pynum" where
  "py_round2 (PInt a) = Inr (PInt a)"
| "py_round2 (PFloat (Finite s m p)) =
     (case to_binary64 (round_half_even (100 * num_of m p) (den_of p)) 100 of
        None \<Rightarrow> Inl OverflowError
      | Some (m', p') \<Rightarrow> Inr (PFloat (Finite s m' p')))"
| "py_round2 (PFloat x) = Inr (PFloat x)"

definition floor_log10 :: "int \<Rightarrow> int \<Rightarrow> int" where
  "floor_log10 n d = floor_log_at 10 n d (dec_length n - dec_length d)"

definition reads_back :: "int \<Rightarrow> int \<Rightarrow> int \<Rightarrow> int \<Rightarrow> bool" where
  "reads_back c k m p =
     ((if 0 \<le> k then to_binary64 (c * 10 ^ nat k) 1 else to_binary64 c (10 ^ nat (- k))) = Some (m, p))"

definition pick_digits :: "bool \<Rightarrow> bool \<Rightarrow> int \<Rightarrow> int \<Rightarrow> int \<Rightarrow> int option" where
  "pick_digits lo_ok hi_ok lo r b =
     (if lo_ok then (if hi_ok then Some (nearest_even lo r b) else Some lo)
      else if hi_ok then Some (lo + 1) else None)"

definition candidate_at :: "int \<Rightarrow> int \<Rightarrow> int \<Rightarrow> int \<Rightarrow> int \<Rightarrow> int option" where
  "candidate_at a b k m p =
     pick_digits (reads_back (a div b) k m p) (reads_back (a div b + 1) k m p) (a div b) (a mod b) b"

definition repr_candidate :: "int \<Rightarrow> int \<Rightarrow> int \<Rightarrow> int option" where
  "repr_candidate m p k =
     (if 0 \<le> k then candidate_at (num_of m p) (den_of p * 10 ^ nat k) k m p
      else candidate_at (num_of m p * 10 ^ nat (- k)) (den_of p) k m p)"

fun shortest_digits :: "nat \<Rightarrow> int \<Rightarrow> int \<Rightarrow> int \<Rightarrow> int \<times> int" where
  "shortest_digits 0 k m p = (round_scaled 10 (num_of m p) (den_of p) k, k)"
| "shortest_digits (Suc fuel) k m p =
     (case repr_candidate m p k of Some c \<Rightarrow> (c, k) | None \<Rightarrow> shortest_digits fuel (k - 1) m p)"

definition strip_zeros :: "string \<Rightarrow> string" where
  "strip_zeros ds = rev (dropWhile (\<lambda>c. c = CHR ''0'') (rev ds))"

definition format_repr :: "string \<Rightarrow> int \<Rightarrow> string" where
  "format_repr ds decpt =
     (if decpt \<le> - 4 \<or> 16 < decpt then
        take 1 ds @ (if 1 < length ds then CHR ''.'' # drop 1 ds else []) @ ''e'' @
        (if decpt - 1 < 0 then ''-'' else ''+'') @
        (if \<bar>decpt - 1\<bar> < 10 then ''0'' else []) @ int_digits \<bar>decpt - 1\<bar>
      else if decpt \<le> 0 then ''0.'' @ replicate (nat (- decpt)) (CHR ''0'') @ ds
      else if int (length ds) \<le> decpt then
        ds @ replicate (nat decpt - length ds) (CHR ''0'') @ ''.0''
      else take (nat decpt) ds @ CHR ''.'' # drop (nat decpt) ds)"

definition repr_digits :: "string \<Rightarrow> int \<Rightarrow> string" where
  "repr_digits ds k = format_repr (strip_zeros ds) (k + int (length ds))"

definition repr_of :: "int \<times> int \<Rightarrow> string" where
  "repr_of ck = repr_digits (int_digits (fst ck)) (snd ck)"

fun float_repr :: "pyfloat \<Rightarrow> string" where
  "float_repr NaN = ''nan''"
| "float_repr (Infinity s) = (if s then ''-inf'' else ''inf'')"
| "float_repr (Finite s m p) =
     (if s then ''-'' else []) @
     (if m = 0 then ''0.0''
      else repr_of (shortest_digits 16 (floor_log10 (num_of m p) (den_of p)) m p))"

fun num_str :: "pynum \<Rightarrow> string" where
  "num_str (PInt i) = str_int i"
| "num_str (PFloat x) = float_repr x"


section \<open>Python literals and eval on a binary expression\<close>

text \<open>
  The evaluator's pattern is \<^verbatim>\<open>\-?[0-9\.]+ *[\+\*\-/] *\-?[0-9\.]+\<close>: an optional minus, a
  run of digits and dots, spaces, one operator, spaces, an optional minus, a run of
  digits and dots. The character classes of neighbouring parts are disjoint, so the
  greedy match is the only one at a given start and backtracking finds no other.
  \<open>scan\<close> reads one match at the start of a string and returns its parts and the rest.
\<close>

definition is_num :: "char \<Rightarrow> bool" where
  "is_num c = (c \<in> set ''0123456789.'')"

definition is_space :: "char \<Rightarrow> bool" where
  "is_space c = (c = CHR '' '')"

definition is_op :: "char \<Rightarrow> bool" where
  "is_op c = (c \<in> set ''+*-/'')"

definition has_minus :: "string \<Rightarrow> bool" where
  "has_minus s = (case s of [] \<Rightarrow> False | c # cs \<Rightarrow> c = CHR ''-'')"

definition skip_minus :: "string \<Rightarrow> string" where
  "skip_minus s = (if has_minus s then tl s else s)"

record binexpr =
  neg_a :: bool
  lit_a :: string
  oper :: char
  neg_b :: bool
  lit_b :: string

definition scan_b :: "bool \<Rightarrow> string \<Rightarrow> char \<Rightarrow> bool \<Rightarrow> string \<Rightarrow> (binexpr \<times> string) option" where
  "scan_b na a op nb s =
     (if takeWhile is_num s = [] then None
      else Some (\<lparr>neg_a = na, lit_a = a, oper = op, neg_b = nb, lit_b = takeWhile is_num s\<rparr>,
                 dropWhile is_num s))"

definition scan_sign_b :: "bool \<Rightarrow> string \<Rightarrow> char \<Rightarrow> string \<Rightarrow> (binexpr \<times> string) option" where
  "scan_sign_b na a op s = scan_b na a op (has_minus s) (skip_minus s)"

definition scan_op :: "bool \<Rightarrow> string \<Rightarrow> string \<Rightarrow> (binexpr \<times> string) option" where
  "scan_op na a s =
     (case s of [] \<Rightarrow> None
      | op # r \<Rightarrow> if is_op op then scan_sign_b na a op (dropWhile is_space r) else None)"

definition scan_a :: "bool \<Rightarrow> string \<Rightarrow> (binexpr \<times> string) option" where
  "scan_a na s =
     (if takeWhile is_num s = [] then None
      else scan_op na (takeWhile is_num s) (dropWhile is_space (dropWhile is_num s)))"

definition scan :: "string \<Rightarrow> (binexpr \<times> string) option" where
  "scan s = scan_a (has_minus s) (skip_minus s)"

text \<open>The length of the match of the pattern at the start of \<open>s\<close>, if there is one.\<close>

definition match_at :: "string \<Rightarrow> nat option" where
  "match_at s = (case scan s of None \<Rightarrow> None | Some (e, rest) \<Rightarrow> Some (length s - length rest))"

text \<open>
  \<open>pattern.findall(constraint)\<close>: the non-overlapping matches from left to right; after
  a match the search goes on behind it, otherwise one character further. A match has
  at least three characters.
\<close>

fun findall :: "string \<Rightarrow> string list" where
  "findall [] = []"
| "findall (c # cs) =
     (case match_at (c # cs) of
        None \<Rightarrow> findall cs
      | Some n \<Rightarrow> take n (c # cs) # findall (drop (n - 1) cs))"

text \<open>
  What Python's tokenizer makes of a run of digits and dots: digits alone are an integer
  (a leading zero is a syntax error unless all digits are zero); digits with one dot are
  a float, correctly rounded; three dots are \<open>Ellipsis\<close>; everything else is a syntax error.
\<close>

datatype operand = Number pynum | Ellipsis

fun index_of :: "char \<Rightarrow> string \<Rightarrow> int" where
  "index_of c [] = 0"
| "index_of c (d # ds) = (if c = d then 0 else 1 + index_of c ds)"

definition digit_val :: "char \<Rightarrow> int" where
  "digit_val c = index_of c ''0123456789''"

definition digits_val :: "string \<Rightarrow> int" where
  "digits_val ds = foldl (\<lambda>a c. 10 * a + digit_val c) 0 ds"

definition int_literal :: "string \<Rightarrow> pyerr + operand" where
  "int_literal ds =
     (if 1 < length ds \<and> hd ds = CHR ''0'' \<and> (\<exists>c \<in> set ds. c \<noteq> CHR ''0'') then Inl SyntaxError
      else Inr (Number (PInt (digits_val ds))))"

definition float_literal :: "string \<Rightarrow> string \<Rightarrow> pyerr + operand" where
  "float_literal ip fp =
     Inr (Number (PFloat (mk_float False (digits_val (ip @ fp)) (10 ^ length fp))))"

definition literal_parts :: "string \<Rightarrow> string \<Rightarrow> string \<Rightarrow> pyerr + operand" where
  "literal_parts run ip rest =
     (if rest = [] then int_literal ip
      else if CHR ''.'' \<in> set (tl rest) then (if run = ''...'' then Inr Ellipsis else Inl SyntaxError)
      else if ip = [] \<and> tl rest = [] then Inl SyntaxError
      else float_literal ip (tl rest))"

definition literal :: "string \<Rightarrow> pyerr + operand" where
  "literal run =
     literal_parts run (takeWhile (\<lambda>c. c \<noteq> CHR ''.'') run) (dropWhile (\<lambda>c. c \<noteq> CHR ''.'') run)"

text \<open>
  \<open>eval(match)\<close>: the text is compiled first, so a syntax error in either operand comes
  before any evaluation; arithmetic on \<open>Ellipsis\<close> is a type error; a unary minus binds
  tighter than the operator. \<open>py_eval\<close> is Python's \<open>eval\<close> on the texts the pattern
  matches, the only texts the evaluator passes to it.
\<close>

fun eval_operands :: "bool \<Rightarrow> pyerr + operand \<Rightarrow> char \<Rightarrow> bool \<Rightarrow> pyerr + operand \<Rightarrow> pyerr + pynum" where
  "eval_operands na (Inl e) op nb b = Inl e"
| "eval_operands na (Inr a) op nb (Inl e) = Inl e"
| "eval_operands na (Inr (Number x)) op nb (Inr (Number y)) =
     py_binop op (if na then py_neg x else x) (if nb then py_neg y else y)"
| "eval_operands na (Inr a) op nb (Inr b) = Inl TypeError"

definition eval_binexpr :: "binexpr \<Rightarrow> pyerr + pynum" where
  "eval_binexpr e = eval_operands (neg_a e) (literal (lit_a e)) (oper e) (neg_b e) (literal (lit_b e))"

definition py_eval :: "string \<Rightarrow> pyerr + pynum" where
  "py_eval text =
     (case scan text of
        None \<Rightarrow> Inl SyntaxError
      | Some (e, rest) \<Rightarrow> if rest = [] then eval_binexpr e else Inl SyntaxError)"

section \<open>Python values\<close>

text \<open>
  The \<open>value\<close> attribute of a variable object holds whatever the surrounding workflow
  stored there: \<open>None\<close> (the constructor's initial value), a string or a number.
  \<open>py_str\<close> is Python's \<open>str()\<close> on such a value.
\<close>

datatype pyval = PyNone | PyStr string | PyNum pynum

fun py_str :: "pyval \<Rightarrow> string" where
  "py_str PyNone = ''None''"
| "py_str (PyStr s) = s"
| "py_str (PyNum n) = num_str n"

section \<open>The interface definition\<close>

text \<open>
  The four variable classes of \<open>Interface\<close>. Their constructors leave \<open>value\<close> at
  \<open>None\<close>, except \<open>SignalGroup\<close>, whose value is the parsed properties.
\<close>

record part_constant =
  pc_name :: string
  pc_desc :: pyval
  pc_default :: pyval
  pc_value :: pyval

record design_variable =
  dv_name :: string
  dv_desc :: pyval
  dv_default :: pyval
  dv_value :: pyval

record signal_group =
  sg_name :: string
  sg_value :: pyval

record signal =
  sig_name :: string
  sig_value :: pyval

text \<open>
  A Python \<open>dict\<close> keeps its keys in insertion order, and the substitution loops run
  over \<open>items()\<close> in that order: a dictionary is an association list.
  The constraint objects come from the module \<open>constraint\<close>; their type is a parameter.
\<close>

record 'c interface =
  part_constants :: "(string \<times> part_constant) list"
  dsn_variables :: "(string \<times> design_variable) list"
  signal_groups :: "(string \<times> signal_group) list"
  signals :: "(string \<times> signal) list"
  constraints :: "'c list"

datatype attr = PartConstants | DsnVariables | SignalGroups | Signals

text \<open>\<open>getattr(self, prop).items()\<close>, each object read at its \<open>value\<close> attribute.\<close>

fun getattr_items :: "'c interface \<Rightarrow> attr \<Rightarrow> (string \<times> pyval) list" where
  "getattr_items ifc PartConstants = map (\<lambda>(n, obj). (n, pc_value obj)) (part_constants ifc)"
| "getattr_items ifc DsnVariables = map (\<lambda>(n, obj). (n, dv_value obj)) (dsn_variables ifc)"
| "getattr_items ifc SignalGroups = map (\<lambda>(n, obj). (n, sg_value obj)) (signal_groups ifc)"
| "getattr_items ifc Signals = map (\<lambda>(n, obj). (n, sig_value obj)) (signals ifc)"

section \<open>Parsing a definition\<close>

text \<open>
  \<open>d[key]\<close> raises \<open>KeyError\<close> on a missing key; \<open>d[key] = v\<close> overwrites in place or
  appends at the end.
\<close>

definition dict_get :: "('k \<times> 'v) list \<Rightarrow> 'k \<Rightarrow> pyerr + 'v" where
  "dict_get d k = (case map_of d k of None \<Rightarrow> Inl KeyError | Some v \<Rightarrow> Inr v)"

fun dict_set :: "'k \<Rightarrow> 'v \<Rightarrow> ('k \<times> 'v) list \<Rightarrow> ('k \<times> 'v) list" where
  "dict_set k v [] = [(k, v)]"
| "dict_set k v ((k', v') # d) = (if k' = k then (k, v) # d else (k', v') # dict_set k v d)"

text \<open>The constructors of the variable classes.\<close>

definition PartConstant_init :: "string \<Rightarrow> (string \<times> pyval) list \<Rightarrow> pyerr + part_constant" where
  "PartConstant_init name props =
     (case dict_get props ''desc'' of
        Inl e \<Rightarrow> Inl e
      | Inr desc \<Rightarrow>
          (case dict_get props ''default'' of
             Inl e \<Rightarrow> Inl e
           | Inr dflt \<Rightarrow>
               Inr \<lparr>pc_name = name, pc_desc = desc, pc_default = dflt, pc_value = PyNone\<rparr>))"

definition DesignVariable_init :: "string \<Rightarrow> (string \<times> pyval) list \<Rightarrow> pyerr + design_variable" where
  "DesignVariable_init name props =
     (case dict_get props ''desc'' of
        Inl e \<Rightarrow> Inl e
      | Inr desc \<Rightarrow>
          (case dict_get props ''default'' of
             Inl e \<Rightarrow> Inl e
           | Inr dflt \<Rightarrow>
               Inr \<lparr>dv_name = name, dv_desc = desc, dv_default = dflt, dv_value = PyNone\<rparr>))"

definition SignalGroup_init :: "string \<Rightarrow> pyval \<Rightarrow> signal_group" where
  "SignalGroup_init name props = \<lparr>sg_name = name, sg_value = props\<rparr>"

definition Signal_init :: "string \<Rightarrow> signal" where
  "Signal_init name = \<lparr>sig_name = name, sig_value = PyNone\<rparr>"

fun parse_part_constants_loop ::
  "(string \<times> (string \<times> pyval) list) list \<Rightarrow> (string \<times> part_constant) list \<Rightarrow>
   pyerr + (string \<times> part_constant) list" where
  "parse_part_constants_loop [] acc = Inr acc"
| "parse_part_constants_loop ((name, props) # rest) acc =
     (case PartConstant_init name props of
        Inl e \<Rightarrow> Inl e
      | Inr obj \<Rightarrow> parse_part_constants_loop rest (dict_set name obj acc))"

definition parse_part_constants ::
  "(string \<times> (string \<times> pyval) list) list \<Rightarrow> pyerr + (string \<times> part_constant) list" where
  "parse_part_constants from_yaml = parse_part_constants_loop from_yaml []"

fun parse_dsn_variables_loop ::
  "(string \<times> (string \<times> pyval) list) list \<Rightarrow> (string \<times> design_variable) list \<Rightarrow>
   pyerr + (string \<times> design_variable) list" where
  "parse_dsn_variables_loop [] acc = Inr acc"
| "parse_dsn_variables_loop ((name, props) # rest) acc =
     (case DesignVariable_init name props of
        Inl e \<Rightarrow> Inl e
      | Inr obj \<Rightarrow> parse_dsn_variables_loop rest (dict_set name obj acc))"

definition parse_dsn_variables ::
  "(string \<times> (string \<times> pyval) list) list \<Rightarrow> pyerr + (string \<times> design_variable) list" where
  "parse_dsn_variables from_yaml = parse_dsn_variables_loop from_yaml []"

definition parse_signals :: "string list \<Rightarrow> (string \<times> signal) list" where
  "parse_signals from_yaml = foldl (\<lambda>acc name. dict_set name (Signal_init name) acc) [] from_yaml"

definition parse_signal_groups :: "(string \<times> pyval) list \<Rightarrow> (string \<times> signal_group) list" where
  "parse_signal_groups from_yaml =
     foldl (\<lambda>acc (name, props). dict_set name (SignalGroup_init name props) acc)
       [] from_yaml"

text \<open>
  Modelled from the spec: the function \<open>factory\<close> of the module \<open>constraint\<close>, which
  \<open>parse_constraints\<close> imports and which is not among the sources. The spec (4.2) makes it
  a lookup in a registry from kind strings to constructors that fails with an
  "unknown constraint kind" error on an unregistered kind and never returns a default.
  A constructor takes a name and the properties and returns the constraint object.
\<close>

definition factory :: "(string \<Rightarrow> (string \<Rightarrow> 'p \<Rightarrow> 'c) option) \<Rightarrow> string \<Rightarrow> pyerr + (string \<Rightarrow> 'p \<Rightarrow> 'c)" where
  "factory registry kind =
     (case registry kind of None \<Rightarrow> Inl (UnknownConstraintKind kind) | Some ctor \<Rightarrow> Inr ctor)"

text \<open>
  \<open>Interface.parse_constraints\<close>: the outer loop runs over the kinds, the inner loop over
  the constraints of a kind; the factory is asked inside the inner loop.
\<close>

fun parse_kind ::
  "(string \<Rightarrow> (string \<Rightarrow> 'p \<Rightarrow> 'c) option) \<Rightarrow> string \<Rightarrow> (string \<times> 'p) list \<Rightarrow> 'c list \<Rightarrow> pyerr + 'c list" where
  "parse_kind registry kind [] acc = Inr acc"
| "parse_kind registry kind ((name, props) # rest) acc =
     (case factory registry kind of
        Inl e \<Rightarrow> Inl e
      | Inr concrete_constraint \<Rightarrow>
          parse_kind registry kind rest (acc @ [concrete_constraint name props]))"

fun parse_constraints_loop ::
  "(string \<Rightarrow> (string \<Rightarrow> 'p \<Rightarrow> 'c) option) \<Rightarrow> (string \<times> (string \<times> 'p) list) list \<Rightarrow> 'c list \<Rightarrow>
   pyerr + 'c list" where
  "parse_constraints_loop registry [] acc = Inr acc"
| "parse_constraints_loop registry ((kind, constraints_dicts) # rest) acc =
     (case parse_kind registry kind constraints_dicts acc of
        Inl e \<Rightarrow> Inl e
      | Inr acc' \<Rightarrow> parse_constraints_loop registry rest acc')"

definition parse_constraints ::
  "(string \<Rightarrow> (string \<Rightarrow> 'p \<Rightarrow> 'c) option) \<Rightarrow> (string \<times> (string \<times> 'p) list) list \<Rightarrow> pyerr + 'c list" where
  "parse_constraints registry from_yaml = parse_constraints_loop registry from_yaml []"

section \<open>The substitution engine\<close>

text \<open>The loop of \<open>Interface._variable_sub\<close> over the items of one attribute.\<close>

fun sub_items :: "(string \<times> pyval) list \<Rightarrow> string \<Rightarrow> string" where
  "sub_items [] constraint = constraint"
| "sub_items ((name, v) # rest) constraint =
     sub_items rest (replace (CHR ''$'' # name) (py_str v) constraint)"

definition variable_sub_prop :: "'c interface \<Rightarrow> string \<Rightarrow> attr \<Rightarrow> string" where
  "variable_sub_prop ifc raw_constraint prop = sub_items (getattr_items ifc prop) raw_constraint"

text \<open>\<open>Interface.variable_sub\<close>: the four passes, in the order of the source's list.\<close>

definition variable_sub :: "'c interface \<Rightarrow> string \<Rightarrow> string" where
  "variable_sub ifc raw_constraint =
     foldl (variable_sub_prop ifc) raw_constraint
       [PartConstants, DsnVariables, SignalGroups, Signals]"

text \<open>All items the four passes run over, in the order in which they are tried.\<close>

definition all_items :: "'c interface \<Rightarrow> (string \<times> pyval) list" where
  "all_items ifc =
     concat (map (getattr_items ifc) [PartConstants, DsnVariables, SignalGroups, Signals])"

section \<open>The expression evaluator\<close>

text \<open>
  \<open>Interface.eval_expressions\<close>: the matches are found once, on the string as it comes
  in; the loop then evaluates each match and replaces its text in the current string.
  An exception of \<open>eval\<close> or \<open>round\<close> leaves the function.
\<close>

fun eval_loop :: "string list \<Rightarrow> string \<Rightarrow> pyerr + string" where
  "eval_loop [] constraint = Inr constraint"
| "eval_loop (m # ms) constraint =
     (case py_eval m of
        Inl e \<Rightarrow> Inl e
      | Inr v \<Rightarrow>
          (case py_round2 v of
             Inl e \<Rightarrow> Inl e
           | Inr evaluated \<Rightarrow> eval_loop ms (replace m (num_str evaluated) constraint)))"

definition eval_expressions :: "string \<Rightarrow> pyerr + string" where
  "eval_expressions constraint = eval_loop (findall constraint) constraint"

text \<open>The text that takes the place of a match: \<open>str(round(eval(match), 2))\<close>.\<close>

definition fold_text :: "string \<Rightarrow> pyerr + string" where
  "fold_text m =
     (case py_eval m of
        Inl e \<Rightarrow> Inl e
      | Inr v \<Rightarrow> (case py_round2 v of Inl e \<Rightarrow> Inl e | Inr evaluated \<Rightarrow> Inr (num_str evaluated)))"

section \<open>The generation pipeline\<close>

text \<open>
  \<open>Interface.gen_constraints\<close>. The method \<open>gen_constraint\<close> of a constraint object lives
  in the module \<open>constraint\<close>; it is a parameter here, \<open>None\<close> being Python's \<open>None\<close>.
\<close>

fun gen_loop :: "('c \<Rightarrow> string option) \<Rightarrow> 'c interface \<Rightarrow> 'c list \<Rightarrow> string list \<Rightarrow> pyerr + string list" where
  "gen_loop gen_constraint ifc [] acc = Inr acc"
| "gen_loop gen_constraint ifc (c # cs) acc =
     (case gen_constraint c of
        None \<Rightarrow> gen_loop gen_constraint ifc cs acc
      | Some cstr_str \<Rightarrow>
          (case eval_expressions (variable_sub ifc cstr_str) of
             Inl e \<Rightarrow> Inl e
           | Inr line \<Rightarrow> gen_loop gen_constraint ifc cs (acc @ [line])))"

definition gen_constraints :: "('c \<Rightarrow> string option) \<Rightarrow> 'c interface \<Rightarrow> pyerr + string list" where
  "gen_constraints gen_constraint ifc = gen_loop gen_constraint ifc (constraints ifc) []"

section \<open>Example definitions\<close>

text \<open>Small interfaces on which the properties below are evaluated.\<close>

definition example_pc :: "string \<Rightarrow> pyval \<Rightarrow> string \<times> part_constant" where
  "example_pc name v =
     (name, \<lparr>pc_name = name, pc_desc = PyStr ''a constant'', pc_default = PyNum (PInt 0), pc_value = v\<rparr>)"

definition example_signal :: "string \<Rightarrow> pyval \<Rightarrow> string \<times> signal" where
  "example_signal name v = (name, \<lparr>sig_name = name, sig_value = v\<rparr>)"

definition example_ifc ::
  "(string \<times> part_constant) list \<Rightarrow> (string \<times> signal) list \<Rightarrow> string option list \<Rightarrow>
   string option interface" where
  "example_ifc pcs sigs cs =
     \<lparr>part_constants = pcs, dsn_variables = [], signal_groups = [], signals = sigs, constraints = cs\<rparr>"

section \<open>Delimited tokens\<close>

text \<open>
  A character delimits a token if it is not the marker and occurs in none of the given
  names: no replaced text \<open>$name\<close> can then reach across it. The characters the
  evaluator's pattern can consume are the digits, the dot, the space and the operators.
\<close>

definition delimits :: "char \<Rightarrow> string set \<Rightarrow> bool" where
  "delimits c names = (c \<noteq> CHR ''$'' \<and> (\<forall>k \<in> names. c \<notin> set k))"

definition arith_char :: "char \<Rightarrow> bool" where
  "arith_char c = (is_num c \<or> is_space c \<or> is_op c)"

text \<open>A text of arithmetic characters with at least one operator among them.\<close>

definition arith_text :: "string \<Rightarrow> bool" where
  "arith_text m = ((\<forall>c \<in> set m. arith_char c) \<and> (\<exists>c \<in> set m. is_op c))"

section \<open>Properties of replace\<close>

text \<open>
  A character that does not occur in the replaced text splits the subject: what is
  replaced left of it and right of it does not depend on the other side. The same holds
  left of a marker for a text that contains the marker at its head only.
\<close>

lemma prefix_before_foreign:
  assumes "c \<notin> set old"
  shows "prefix old (a @ c # b) \<longleftrightarrow> prefix old a"
proof
  assume "prefix old (a @ c # b)"
  then consider "prefix old a" | us where "old = a @ us" "prefix us (c # b)"
    by (auto simp: prefix_append)
  then show "prefix old a"
  proof cases
    case 1
    then show ?thesis .
  next
    case 2
    with assms have "us = []" by (cases us) auto
    with 2 show ?thesis by simp
  qed
next
  assume "prefix old a"
  then show "prefix old (a @ c # b)" by (rule prefix_prefix)
qed

lemma replace_from_split:
  assumes "old \<noteq> []" and "c \<notin> set old"
  shows "replace_from old new (a @ c # b) = replace_from old new a @ c # replace_from old new b"
  using assms
proof (induction old new a rule: replace_from.induct)
  case (1 old new)
  then have "\<not> prefix old (c # b)" by (cases old) auto
  then show ?case by simp
next
  case (2 old new x cs)
  have iff: "prefix old (x # cs @ c # b) \<longleftrightarrow> prefix old (x # cs)"
    using prefix_before_foreign [OF "2.prems"(2), of "x # cs" b] by simp
  show ?case
  proof (cases "prefix old (x # cs)")
    case True
    then have "length old - 1 \<le> length cs"
      by (auto dest: prefix_length_le)
    then have "drop (length old - 1) (cs @ c # b) = drop (length old - 1) cs @ c # b"
      by simp
    with True iff "2.IH"(1) "2.prems" show ?thesis by simp
  next
    case False
    with iff "2.IH"(2) "2.prems" show ?thesis by simp
  qed
qed

lemma replace_from_self: "old \<noteq> [] \<Longrightarrow> replace_from old new old = new"
  by (cases old) auto

lemma prefix_before_marker:
  assumes "c \<notin> set k" and "a \<noteq> []"
  shows "prefix (c # k) (a @ c # b) \<longleftrightarrow> prefix (c # k) a"
proof
  assume "prefix (c # k) (a @ c # b)"
  then consider "prefix (c # k) a" | us where "c # k = a @ us" "prefix us (c # b)"
    unfolding prefix_append by blast
  then show "prefix (c # k) a"
  proof cases
    case 1
    then show ?thesis .
  next
    case 2
    from 2(1) assms(2) obtain a' where "k = a' @ us" by (cases a) auto
    with assms(1) 2(2) have "us = []" by (cases us) auto
    with 2(1) show ?thesis by simp
  qed
next
  assume "prefix (c # k) a"
  then show "prefix (c # k) (a @ c # b)" by (rule prefix_prefix)
qed

lemma replace_from_append:
  assumes "\<And>a'. suffix a' a \<Longrightarrow> a' \<noteq> [] \<Longrightarrow> prefix old (a' @ s) \<Longrightarrow> prefix old a'"
  shows "replace_from old new (a @ s) = replace_from old new a @ replace_from old new s"
  using assms
proof (induction old new a rule: replace_from.induct)
  case (1 old new)
  show ?case by simp
next
  case (2 old new x cs)
  have iff: "prefix old (x # cs @ s) \<longleftrightarrow> prefix old (x # cs)"
    using "2.prems" [of "x # cs"] prefix_prefix [of old "x # cs" s] by auto
  show ?case
  proof (cases "prefix old (x # cs)")
    case True
    then have "length old - 1 \<le> length cs"
      by (auto dest: prefix_length_le)
    then have dr: "drop (length old - 1) (cs @ s) = drop (length old - 1) cs @ s"
      by simp
    have "suffix a' (x # cs)" if "suffix a' (drop (length old - 1) cs)" for a'
      using that suffix_drop [of "length old - 1" cs] by (meson suffix_ConsI suffix_order.trans)
    with "2.prems" have "replace_from old new (drop (length old - 1) cs @ s) =
        replace_from old new (drop (length old - 1) cs) @ replace_from old new s"
      by (intro "2.IH"(1) [OF True]) auto
    with True iff dr show ?thesis by simp
  next
    case False
    have "suffix a' (x # cs)" if "suffix a' cs" for a'
      using that by (rule suffix_ConsI)
    with "2.prems" have "replace_from old new (cs @ s) =
        replace_from old new cs @ replace_from old new s"
      by (intro "2.IH"(2) [OF False]) auto
    with False iff show ?thesis by simp
  qed
qed

lemma replace_from_split_marker:
  assumes "c \<notin> set k"
  shows "replace_from (c # k) new (a @ c # b) =
         replace_from (c # k) new a @ replace_from (c # k) new (c # b)"
  using prefix_before_marker [OF assms] by (intro replace_from_append) blast

lemma replace_from_no_occurrence:
  "old \<noteq> [] \<Longrightarrow> \<not> sublist old s \<Longrightarrow> replace_from old new s = s"
proof (induction s)
  case Nil
  then show ?case by simp
next
  case (Cons c cs)
  from Cons.prems(2) have "\<not> prefix old (c # cs)" "\<not> sublist old cs"
    by (auto simp: sublist_Cons_right)
  with Cons show ?case by simp
qed

section \<open>Properties of the substitution engine\<close>

lemma sub_items_Nil: "sub_items items [] = []"
  by (induction items) (auto simp: replace_def)

lemma sub_items_split:
  assumes "delimits c (fst ` set items)"
  shows "sub_items items (a @ c # b) = sub_items items a @ c # sub_items items b"
  using assms
proof (induction items arbitrary: a b)
  case Nil
  then show ?case by simp
next
  case (Cons kv items)
  obtain k v where kv: "kv = (k, v)" by (cases kv)
  from Cons.prems kv have c: "c \<notin> set (CHR ''$'' # k)" and rest: "delimits c (fst ` set items)"
    by (auto simp: delimits_def)
  have "replace (CHR ''$'' # k) (py_str v) (a @ c # b) =
        replace (CHR ''$'' # k) (py_str v) a @ c # replace (CHR ''$'' # k) (py_str v) b"
    using replace_from_split [OF _ c] by (simp add: replace_def)
  with Cons.IH [OF rest] kv show ?case by simp
qed

lemma sub_items_delimited:
  assumes "pre = [] \<or> delimits (last pre) (fst ` set items)"
    and "post = [] \<or> delimits (hd post) (fst ` set items)"
  shows "sub_items items (pre @ tok @ post) =
         sub_items items pre @ sub_items items tok @ sub_items items post"
proof -
  have right: "sub_items items (tok @ post) = sub_items items tok @ sub_items items post"
  proof (cases post)
    case Nil
    then show ?thesis by (simp add: sub_items_Nil)
  next
    case (Cons c q)
    with assms(2) have d: "delimits c (fst ` set items)" by simp
    from sub_items_split [OF d, of tok q] sub_items_split [OF d, of "[]" q] Cons
    show ?thesis by (simp add: sub_items_Nil)
  qed
  show ?thesis
  proof (cases pre rule: rev_cases)
    case Nil
    with right show ?thesis by (simp add: sub_items_Nil)
  next
    case (snoc p d)
    with assms(1) have d: "delimits d (fst ` set items)" by simp
    from sub_items_split [OF d, of p "tok @ post"] sub_items_split [OF d, of p "[]"] snoc right
    show ?thesis by (simp add: sub_items_Nil)
  qed
qed

lemma sub_items_append: "sub_items (xs @ ys) s = sub_items ys (sub_items xs s)"
  by (induction xs arbitrary: s) auto

lemma sub_items_no_occurrence:
  "\<forall>k \<in> fst ` set xs. \<not> sublist (CHR ''$'' # k) s \<Longrightarrow> sub_items xs s = s"
  by (induction xs arbitrary: s) (auto simp: replace_def replace_from_no_occurrence)

lemma sub_items_own_token:
  assumes "\<forall>k \<in> fst ` set xs. \<not> sublist (CHR ''$'' # k) (CHR ''$'' # name)"
    and "\<forall>k \<in> fst ` set ys. \<not> sublist (CHR ''$'' # k) (py_str v)"
  shows "sub_items (xs @ (name, v) # ys) (CHR ''$'' # name) = py_str v"
proof -
  have "sub_items xs (CHR ''$'' # name) = CHR ''$'' # name"
    using assms(1) by (rule sub_items_no_occurrence)
  moreover have "replace (CHR ''$'' # name) (py_str v) (CHR ''$'' # name) = py_str v"
    using replace_from_self [of "CHR ''$'' # name"] by (simp add: replace_def)
  moreover have "sub_items ys (py_str v) = py_str v"
    using assms(2) by (rule sub_items_no_occurrence)
  ultimately show ?thesis by (simp add: sub_items_append)
qed

lemma sub_items_token:
  assumes "\<forall>k \<in> fst ` set xs. \<not> sublist (CHR ''$'' # k) (CHR ''$'' # name)"
    and "\<forall>k \<in> fst ` set ys. \<not> sublist (CHR ''$'' # k) (py_str v)"
    and "pre = [] \<or> delimits (last pre) (fst ` set (xs @ (name, v) # ys))"
    and "post = [] \<or> delimits (hd post) (fst ` set (xs @ (name, v) # ys))"
  shows "sub_items (xs @ (name, v) # ys) (pre @ CHR ''$'' # name @ post) =
         sub_items (xs @ (name, v) # ys) pre @ py_str v @ sub_items (xs @ (name, v) # ys) post"
  using sub_items_delimited [OF assms(3) assms(4), of "CHR ''$'' # name"]
    sub_items_own_token [OF assms(1) assms(2)]
  by simp

lemma sub_items_unresolved:
  assumes "\<forall>k \<in> fst ` set items. CHR ''$'' \<notin> set k"
    and "\<forall>k \<in> fst ` set items. \<not> sublist (CHR ''$'' # k) (CHR ''$'' # u)"
    and "post = [] \<or> delimits (hd post) (fst ` set items)"
  shows "sub_items items (pre @ CHR ''$'' # u @ post) =
         sub_items items pre @ CHR ''$'' # u @ sub_items items post"
  using assms
proof (induction items arbitrary: pre post)
  case Nil
  then show ?case by simp
next
  case (Cons kv items)
  obtain k v where kv: "kv = (k, v)" by (cases kv)
  let ?old = "CHR ''$'' # k"
  let ?new = "py_str v"
  from Cons.prems kv have k: "CHR ''$'' \<notin> set k" and inert: "\<not> sublist ?old (CHR ''$'' # u)"
    by auto
  have tok: "replace_from ?old ?new (CHR ''$'' # u) = CHR ''$'' # u"
    using inert by (intro replace_from_no_occurrence) simp_all
  have right: "replace_from ?old ?new (CHR ''$'' # u @ post) =
      CHR ''$'' # u @ replace_from ?old ?new post \<and>
      (replace_from ?old ?new post = [] \<or>
       delimits (hd (replace_from ?old ?new post)) (fst ` set items))"
  proof (cases post)
    case Nil
    with tok show ?thesis by simp
  next
    case (Cons c q)
    with Cons.prems(3) kv have d: "delimits c (fst ` set ((k, v) # items))" by simp
    then have c: "c \<notin> set ?old" and d': "delimits c (fst ` set items)"
      by (auto simp: delimits_def)
    from replace_from_split [OF _ c, of ?new "CHR ''$'' # u" q]
      replace_from_split [OF _ c, of ?new "[]" q] tok Cons d'
    show ?thesis by simp
  qed
  have "replace ?old ?new (pre @ CHR ''$'' # u @ post) =
      replace ?old ?new pre @ CHR ''$'' # u @ replace ?old ?new post"
    using replace_from_split_marker [OF k, of ?new pre "u @ post"] right
    by (simp add: replace_def)
  moreover have "sub_items items (replace ?old ?new pre @ CHR ''$'' # u @ replace ?old ?new post) =
      sub_items items (replace ?old ?new pre) @ CHR ''$'' # u @
      sub_items items (replace ?old ?new post)"
    using Cons.prems(1,2) right by (intro Cons.IH) (auto simp: replace_def)
  ultimately show ?case using kv by simp
qed

lemma variable_sub_items: "variable_sub ifc t = sub_items (all_items ifc) t"
  by (simp add: variable_sub_def variable_sub_prop_def all_items_def sub_items_append)

lemma getattr_keys:
  "fst ` set (getattr_items ifc PartConstants) = fst ` set (part_constants ifc)"
  "fst ` set (getattr_items ifc DsnVariables) = fst ` set (dsn_variables ifc)"
  "fst ` set (getattr_items ifc SignalGroups) = fst ` set (signal_groups ifc)"
  "fst ` set (getattr_items ifc Signals) = fst ` set (signals ifc)"
  by force+




text \<open>
  C1, as the spec states it, fails. In each instance \<open>tsu\<close> is a key of \<open>part_constants\<close>
  and of \<open>signals\<close> with different values, and the output does not hold the part
  constant's value: a part constant \<open>t\<close> stored before \<open>tsu\<close> rewrites the token first; a
  value that itself holds the token hands it on to the pass for the signals; a token that
  directly follows the text \<open>$d\<close> gives, with the value \<open>in\<close>, the token \<open>$din\<close> of a signal;
  and a token followed by the text \<open>_max\<close> belongs to the earlier name \<open>tsu_max\<close>.
\<close>

theorem precedence_counterexample:
  "variable_sub
     (example_ifc [example_pc ''t'' (PyNum (PInt 1)), example_pc ''tsu'' (PyNum (PInt 2))]
        [example_signal ''tsu'' (PyStr ''data_in'')] [])
     ''$tsu'' = ''1su'' \<and>
   variable_sub
     (example_ifc [example_pc ''tsu'' (PyStr ''$tsu'')] [example_signal ''tsu'' (PyStr ''data_in'')] [])
     ''$tsu'' = ''data_in'' \<and>
   variable_sub
     (example_ifc [example_pc ''tsu'' (PyStr ''in'')]
        [example_signal ''tsu'' (PyStr ''data_in''), example_signal ''din'' (PyStr ''X'')] [])
     ''$d$tsu'' = ''X'' \<and>
   variable_sub
     (example_ifc [example_pc ''tsu_max'' (PyNum (PInt 9)), example_pc ''tsu'' (PyNum (PInt 2))]
        [example_signal ''tsu'' (PyStr ''data_in'')] [])
     ''$tsu_max'' = ''9''"
  by code_simp

text \<open>
  C1, amended: let \<open>N\<close> be a key of \<open>part_constants\<close> and of \<open>signals\<close> with different values.
  A token \<open>$N\<close> anywhere in a template is replaced by the string form of the part
  constant's value, the text before and the text behind it being substituted on their
  own, if
  \<^item> no part constant stored before \<open>N\<close> occurs, with the marker before it, in the token,
  \<^item> no name tried after it (the later part constants, the design variables, the signal
    groups and the signals) occurs, with the marker before it, in the string form of the
    part constant's value, and
  \<^item> the token is delimited: the character before it and the character behind it, where
    there is one, are not the marker and occur in no name of the four collections.
\<close>

theorem part_constant_wins:
  assumes "part_constants ifc = xs @ (N, c) # ys"
    and "(N, s) \<in> set (signals ifc)" and "sig_value s \<noteq> pc_value c"
    and "\<forall>k \<in> fst ` set xs. \<not> sublist (CHR ''$'' # k) (CHR ''$'' # N)"
    and "\<forall>k \<in> fst ` set ys \<union> fst ` set (dsn_variables ifc) \<union> fst ` set (signal_groups ifc) \<union>
           fst ` set (signals ifc). \<not> sublist (CHR ''$'' # k) (py_str (pc_value c))"
    and "pre = [] \<or> delimits (last pre) (fst ` set (all_items ifc))"
    and "post = [] \<or> delimits (hd post) (fst ` set (all_items ifc))"
  shows "variable_sub ifc (pre @ CHR ''$'' # N @ post) =
         variable_sub ifc pre @ py_str (pc_value c) @ variable_sub ifc post"
proof -
  let ?f = "\<lambda>(n, obj). (n, pc_value obj)"
  let ?xs = "map ?f xs"
  let ?ys = "map ?f ys @ getattr_items ifc DsnVariables @ getattr_items ifc SignalGroups @
       getattr_items ifc Signals"
  have items: "all_items ifc = ?xs @ (N, pc_value c) # ?ys"
    using assms(1) by (simp add: all_items_def)
  have kx: "fst ` set ?xs = fst ` set xs" and ky: "fst ` set (map ?f ys) = fst ` set ys"
    by force+
  have "fst ` set ?ys = fst ` set (map ?f ys) \<union> fst ` set (getattr_items ifc DsnVariables) \<union>
      fst ` set (getattr_items ifc SignalGroups) \<union> fst ` set (getattr_items ifc Signals)"
    by (simp only: set_append image_Un Un_assoc)
  then have kys: "fst ` set ?ys = fst ` set ys \<union> fst ` set (dsn_variables ifc) \<union>
      fst ` set (signal_groups ifc) \<union> fst ` set (signals ifc)"
    by (simp only: ky getattr_keys)
  have before: "\<forall>k \<in> fst ` set ?xs. \<not> sublist (CHR ''$'' # k) (CHR ''$'' # N)"
    using assms(4) by (simp only: kx)
  have after: "\<forall>k \<in> fst ` set ?ys. \<not> sublist (CHR ''$'' # k) (py_str (pc_value c))"
    using assms(5) by (simp only: kys)
  from assms(6,7) show ?thesis
    unfolding variable_sub_items items by (rule sub_items_token [OF before after])
qed

theorem part_constant_wins_witness:
  "variable_sub
     (example_ifc [example_pc ''tsu'' (PyNum (PInt 2)), example_pc ''t'' (PyNum (PInt 1))]
        [example_signal ''clk'' (PyStr ''sys_clk''), example_signal ''tsu'' (PyStr ''data_in'')] [])
     ''set_input_delay $tsu -clock $clk'' = ''set_input_delay 2 -clock sys_clk''"
proof -
  let ?c = "\<lparr>pc_name = ''tsu'', pc_desc = PyStr ''a constant'', pc_default = PyNum (PInt 0),
             pc_value = PyNum (PInt 2)\<rparr>"
  let ?s = "\<lparr>sig_name = ''tsu'', sig_value = PyStr ''data_in''\<rparr>"
  let ?ifc = "example_ifc [example_pc ''tsu'' (PyNum (PInt 2)), example_pc ''t'' (PyNum (PInt 1))]
        [example_signal ''clk'' (PyStr ''sys_clk''), example_signal ''tsu'' (PyStr ''data_in'')] []"
  have pcs: "part_constants ?ifc = [] @ (''tsu'', ?c) # [example_pc ''t'' (PyNum (PInt 1))]"
    by (simp add: example_ifc_def example_pc_def)
  have sig: "(''tsu'', ?s) \<in> set (signals ?ifc)"
    by (simp add: example_ifc_def example_signal_def)
  have diff: "sig_value ?s \<noteq> pc_value ?c"
    by simp
  have before: "\<forall>k \<in> fst ` set ([] :: (string \<times> part_constant) list).
      \<not> sublist (CHR ''$'' # k) (CHR ''$'' # ''tsu'')"
    by simp
  have after: "\<forall>k \<in> fst ` set [example_pc ''t'' (PyNum (PInt 1))] \<union> fst ` set (dsn_variables ?ifc) \<union>
      fst ` set (signal_groups ?ifc) \<union> fst ` set (signals ?ifc).
      \<not> sublist (CHR ''$'' # k) (py_str (pc_value ?c))"
    by code_simp
  have pre: "''set_input_delay '' = [] \<or>
      delimits (last ''set_input_delay '') (fst ` set (all_items ?ifc))"
    by code_simp
  have post: "'' -clock $clk'' = [] \<or> delimits (hd '' -clock $clk'') (fst ` set (all_items ?ifc))"
    by code_simp
  have a: "variable_sub ?ifc ''set_input_delay '' = ''set_input_delay ''"
    by code_simp
  have b: "variable_sub ?ifc '' -clock $clk'' = '' -clock sys_clk''"
    by code_simp
  have str: "py_str (pc_value ?c) = ''2''"
    by code_simp
  from part_constant_wins [OF pcs sig diff before after pre post, unfolded a b str]
  show ?thesis by simp
qed

text \<open>
  C10, as stated, fails: an unset variable \<open>tsu\<close> stored behind a variable \<open>t\<close> never sees
  its token, which the pass for \<open>t\<close> has rewritten before; a token that directly follows
  the text \<open>$x\<close> gives, with the text \<open>None\<close>, the token \<open>$xNone\<close> of a later name; and a
  token followed by the text \<open>_max\<close> belongs to the earlier name \<open>tsu_max\<close>.
\<close>

theorem unset_value_counterexample:
  "variable_sub
     (example_ifc [example_pc ''t'' (PyNum (PInt 5)), example_pc ''tsu'' PyNone] [] [])
     ''$tsu'' = ''5su'' \<and>
   variable_sub
     (example_ifc [example_pc ''tsu'' PyNone, example_pc ''xNone'' (PyNum (PInt 3))] [] [])
     ''$x$tsu'' = ''3'' \<and>
   variable_sub
     (example_ifc [example_pc ''tsu_max'' (PyNum (PInt 9)), example_pc ''tsu'' PyNone] [] [])
     ''$tsu_max'' = ''9''"
  by code_simp

text \<open>
  C10, amended: if the variable \<open>name\<close> of one of the four collections still holds \<open>None\<close>,
  a token \<open>$name\<close> anywhere in a template is replaced by the four characters \<open>None\<close>, the
  text before and the text behind it being substituted on their own, if
  \<^item> no name tried before it, in the order of the four passes and of each dictionary,
    occurs, with the marker before it, in the token, and
  \<^item> the token is delimited: the character before it and the character behind it, where
    there is one, are not the marker and occur in no name of the four collections.
\<close>

theorem unset_variable_gives_None:
  assumes "all_items ifc = xs @ (name, PyNone) # ys"
    and "\<forall>k \<in> fst ` set xs. \<not> sublist (CHR ''$'' # k) (CHR ''$'' # name)"
    and "pre = [] \<or> delimits (last pre) (fst ` set (all_items ifc))"
    and "post = [] \<or> delimits (hd post) (fst ` set (all_items ifc))"
  shows "variable_sub ifc (pre @ CHR ''$'' # name @ post) =
         variable_sub ifc pre @ ''None'' @ variable_sub ifc post"
proof -
  have "\<not> sublist (CHR ''$'' # k) ''None''" for k
    by (auto dest: set_mono_sublist)
  then have after: "\<forall>k \<in> fst ` set ys. \<not> sublist (CHR ''$'' # k) (py_str PyNone)"
    by simp
  from assms(3,4) sub_items_token [OF assms(2) after, of pre post] show ?thesis
    unfolding variable_sub_items assms(1) by simp
qed

theorem unset_variable_gives_None_witness:
  "variable_sub
     \<lparr>part_constants = [example_pc ''tsu'' (PyNum (PInt 2))], dsn_variables = [],
      signal_groups = [], signals = parse_signals [''clk_in''], constraints = [] :: unit list\<rparr>
     ''set_input_delay $tsu -clock $clk_in [get_ports d]'' =
   ''set_input_delay 2 -clock None [get_ports d]''"
proof -
  let ?ifc = "\<lparr>part_constants = [example_pc ''tsu'' (PyNum (PInt 2))], dsn_variables = [],
      signal_groups = [], signals = parse_signals [''clk_in''], constraints = [] :: unit list\<rparr>"
  have items: "all_items ?ifc = [(''tsu'', PyNum (PInt 2))] @ (''clk_in'', PyNone) # []"
    by code_simp
  have before: "\<forall>k \<in> fst ` set [(''tsu'', PyNum (PInt 2))].
      \<not> sublist (CHR ''$'' # k) (CHR ''$'' # ''clk_in'')"
    by code_simp
  have pre: "''set_input_delay $tsu -clock '' = [] \<or>
      delimits (last ''set_input_delay $tsu -clock '') (fst ` set (all_items ?ifc))"
    by code_simp
  have post: "'' [get_ports d]'' = [] \<or> delimits (hd '' [get_ports d]'') (fst ` set (all_items ?ifc))"
    by code_simp
  have a: "variable_sub ?ifc ''set_input_delay $tsu -clock '' = ''set_input_delay 2 -clock ''"
    by code_simp
  have b: "variable_sub ?ifc '' [get_ports d]'' = '' [get_ports d]''"
    by code_simp
  from unset_variable_gives_None [OF items before pre post, unfolded a b]
  show ?thesis by simp
qed

text \<open>The constructors leave the \<open>value\<close> attribute at \<open>None\<close>, as C10 supposes.\<close>

lemma constructors_leave_None:
  "PartConstant_init name props = Inr pc \<Longrightarrow> pc_value pc = PyNone"
  "DesignVariable_init name props = Inr dv \<Longrightarrow> dv_value dv = PyNone"
  "sig_value (Signal_init name) = PyNone"
  by (auto simp: PartConstant_init_def DesignVariable_init_def Signal_init_def split: sum.splits)

section \<open>Properties of the expression evaluator\<close>

text \<open>Every match of the pattern consists of arithmetic characters and holds an operator.\<close>

lemma skip_minus_consumes:
  "\<exists>p. s = p @ skip_minus s \<and> (\<forall>c \<in> set p. arith_char c)"
proof (cases "has_minus s")
  case True
  then obtain cs where "s = CHR ''-'' # cs"
    by (cases s) (auto simp: has_minus_def)
  with True have "s = [CHR ''-''] @ skip_minus s" "\<forall>c \<in> set [CHR ''-'']. arith_char c"
    by (auto simp: skip_minus_def arith_char_def is_op_def)
  then show ?thesis by blast
next
  case False
  then have "s = [] @ skip_minus s" by (simp add: skip_minus_def)
  then show ?thesis by force
qed

lemma num_run_arith: "\<forall>c \<in> set (takeWhile is_num s). arith_char c"
  by (auto simp: arith_char_def dest: set_takeWhileD)

lemma space_run_arith: "\<forall>c \<in> set (takeWhile is_space s). arith_char c"
  by (auto simp: arith_char_def dest: set_takeWhileD)

lemma scan_b_consumes:
  assumes "scan_b na a op nb s = Some (e, rest)"
  shows "\<exists>p. s = p @ rest \<and> (\<forall>c \<in> set p. arith_char c)"
proof -
  from assms have "rest = dropWhile is_num s"
    by (auto simp: scan_b_def split: if_splits)
  then have "s = takeWhile is_num s @ rest" by simp
  with num_run_arith show ?thesis by blast
qed

lemma scan_sign_b_consumes:
  assumes "scan_sign_b na a op s = Some (e, rest)"
  shows "\<exists>p. s = p @ rest \<and> (\<forall>c \<in> set p. arith_char c)"
proof -
  from assms obtain p2 where p2: "skip_minus s = p2 @ rest" "\<forall>c \<in> set p2. arith_char c"
    unfolding scan_sign_b_def by (blast dest: scan_b_consumes)
  obtain p1 where p1: "s = p1 @ skip_minus s" "\<forall>c \<in> set p1. arith_char c"
    using skip_minus_consumes by blast
  from p1 p2 have "s = (p1 @ p2) @ rest" "\<forall>c \<in> set (p1 @ p2). arith_char c"
    by auto
  then show ?thesis by blast
qed

lemma scan_op_consumes:
  assumes "scan_op na a s = Some (e, rest)"
  shows "\<exists>p. s = p @ rest \<and> (\<forall>c \<in> set p. arith_char c) \<and> (\<exists>c \<in> set p. is_op c)"
proof -
  from assms obtain op r where s: "s = op # r" and op: "is_op op"
    and b: "scan_sign_b na a op (dropWhile is_space r) = Some (e, rest)"
    by (auto simp: scan_op_def split: list.splits if_splits)
  from scan_sign_b_consumes [OF b] obtain p where
    p: "dropWhile is_space r = p @ rest" "\<forall>c \<in> set p. arith_char c"
    by blast
  have "r = takeWhile is_space r @ dropWhile is_space r" by simp
  with p(1) s have "s = (op # takeWhile is_space r @ p) @ rest"
    by simp
  moreover have "\<forall>c \<in> set (op # takeWhile is_space r @ p). arith_char c"
    using op p(2) space_run_arith [of r] by (auto simp: arith_char_def)
  moreover have "\<exists>c \<in> set (op # takeWhile is_space r @ p). is_op c"
    using op by auto
  ultimately show ?thesis by blast
qed

lemma scan_a_consumes:
  assumes "scan_a na s = Some (e, rest)"
  shows "\<exists>p. s = p @ rest \<and> (\<forall>c \<in> set p. arith_char c) \<and> (\<exists>c \<in> set p. is_op c)"
proof -
  from assms have
    "scan_op na (takeWhile is_num s) (dropWhile is_space (dropWhile is_num s)) = Some (e, rest)"
    by (auto simp: scan_a_def split: if_splits)
  from scan_op_consumes [OF this] obtain p where
    p: "dropWhile is_space (dropWhile is_num s) = p @ rest" "\<forall>c \<in> set p. arith_char c"
       "\<exists>c \<in> set p. is_op c"
    by blast
  have "s = takeWhile is_num s @ takeWhile is_space (dropWhile is_num s) @
      dropWhile is_space (dropWhile is_num s)"
    by simp
  with p(1) have "s = (takeWhile is_num s @ takeWhile is_space (dropWhile is_num s) @ p) @ rest"
    by simp
  moreover have "\<forall>c \<in> set (takeWhile is_num s @ takeWhile is_space (dropWhile is_num s) @ p).
      arith_char c"
    using p(2) num_run_arith [of s] space_run_arith [of "dropWhile is_num s"] by auto
  moreover have "\<exists>c \<in> set (takeWhile is_num s @ takeWhile is_space (dropWhile is_num s) @ p).
      is_op c"
    using p(3) by auto
  ultimately show ?thesis by blast
qed

lemma scan_consumes:
  assumes "scan s = Some (e, rest)"
  shows "\<exists>p. s = p @ rest \<and> arith_text p"
proof -
  from assms obtain p2 where p2: "skip_minus s = p2 @ rest" "\<forall>c \<in> set p2. arith_char c"
      "\<exists>c \<in> set p2. is_op c"
    unfolding scan_def by (blast dest: scan_a_consumes)
  obtain p1 where p1: "s = p1 @ skip_minus s" "\<forall>c \<in> set p1. arith_char c"
    using skip_minus_consumes by blast
  from p1 p2 have "s = (p1 @ p2) @ rest" "arith_text (p1 @ p2)"
    by (auto simp: arith_text_def)
  then show ?thesis by blast
qed

lemma match_at_text:
  assumes "match_at s = Some n"
  shows "arith_text (take n s)"
proof -
  from assms obtain e rest where sc: "scan s = Some (e, rest)" and n: "n = length s - length rest"
    by (auto simp: match_at_def split: option.splits)
  from scan_consumes [OF sc] obtain p where "s = p @ rest" "arith_text p" by blast
  with n show ?thesis by simp
qed

lemma findall_texts: "m \<in> set (findall s) \<Longrightarrow> arith_text m"
proof (induction s rule: findall.induct)
  case 1
  then show ?case by simp
next
  case (2 c cs)
  show ?case
  proof (cases "match_at (c # cs)")
    case None
    with 2 show ?thesis by simp
  next
    case (Some n)
    with "2.prems" have "m = take n (c # cs) \<or> m \<in> set (findall (drop (n - 1) cs))"
      by simp
    then show ?thesis
      using "2.IH"(2) [OF Some] match_at_text [OF Some] by blast
  qed
qed

lemma arith_text_not_sublist:
  assumes "arith_text m" and "\<forall>c \<in> set t. \<not> is_op c"
  shows "\<not> sublist m t"
proof
  assume "sublist m t"
  then have "set m \<subseteq> set t" by (rule set_mono_sublist)
  with assms show False by (auto simp: arith_text_def)
qed

lemma replace_from_keeps_token:
  assumes m: "arith_text m"
    and t0: "\<not> arith_char t0"
    and noop: "\<forall>c \<in> set (t0 # T). \<not> is_op c"
    and shield: "\<not> arith_char (last (t0 # T)) \<or> Y = [] \<or> \<not> arith_char (hd Y)"
  shows "replace_from m r (X @ t0 # T @ Y) = replace_from m r X @ t0 # T @ replace_from m r Y"
    and "Y = [] \<Longrightarrow> replace_from m r Y = []"
    and "Y \<noteq> [] \<Longrightarrow> \<not> arith_char (hd Y) \<Longrightarrow>
         replace_from m r Y \<noteq> [] \<and> hd (replace_from m r Y) = hd Y"
proof -
  from m have ne: "m \<noteq> []" and chars: "\<forall>c \<in> set m. arith_char c"
    by (auto simp: arith_text_def)
  have foreign: "\<not> arith_char c \<Longrightarrow> c \<notin> set m" for c
    using chars by blast
  have inert: "set t \<subseteq> set (t0 # T) \<Longrightarrow> replace_from m r t = t" for t
    using arith_text_not_sublist [OF m, of t] noop ne
    by (intro replace_from_no_occurrence) auto
  show hd_kept: "Y \<noteq> [] \<Longrightarrow> \<not> arith_char (hd Y) \<Longrightarrow>
      replace_from m r Y \<noteq> [] \<and> hd (replace_from m r Y) = hd Y"
  proof -
    assume "Y \<noteq> []" "\<not> arith_char (hd Y)"
    then obtain c q where Y: "Y = c # q" and c: "c \<notin> set m"
      using foreign by (cases Y) auto
    from replace_from_split [OF ne c, of r "[]" q] Y show ?thesis by simp
  qed
  show "Y = [] \<Longrightarrow> replace_from m r Y = []" by simp
  have tail: "replace_from m r (T @ Y) = T @ replace_from m r Y"
  proof -
    consider (a) "Y = []" | (b) c q where "Y = c # q" "\<not> arith_char c"
      | (c) "\<not> arith_char (last T)" "T \<noteq> []" | (d) "T = []"
      using shield by (cases Y; cases "T = []") auto
    then show ?thesis
    proof cases
      case a
      then show ?thesis using inert [of T] by auto
    next
      case b
      from replace_from_split [OF ne foreign [OF b(2)], of r T q]
        replace_from_split [OF ne foreign [OF b(2)], of r "[]" q] inert [of T] b(1)
      show ?thesis by auto
    next
      case c
      then obtain T' l where T: "T = T' @ [l]" and l: "\<not> arith_char l"
        by (cases T rule: rev_cases) auto
      from replace_from_split [OF ne foreign [OF l], of r T' Y] inert [of T'] T
      show ?thesis by auto
    next
      case d
      then show ?thesis by simp
    qed
  qed
  from replace_from_split [OF ne foreign [OF t0], of r X "T @ Y"] tail
  show "replace_from m r (X @ t0 # T @ Y) = replace_from m r X @ t0 # T @ replace_from m r Y"
    by simp
qed

lemma eval_loop_keeps_token:
  assumes "\<forall>m \<in> set ms. arith_text m"
    and "\<not> arith_char t0"
    and "\<forall>c \<in> set (t0 # T). \<not> is_op c"
    and "\<not> arith_char (last (t0 # T)) \<or> Y = [] \<or> \<not> arith_char (hd Y)"
    and "eval_loop ms (X @ t0 # T @ Y) = Inr line"
  shows "\<exists>X' Y'. line = X' @ t0 # T @ Y'"
  using assms(1,4,5)
proof (induction ms arbitrary: X Y)
  case Nil
  then show ?case by auto
next
  case (Cons m ms)
  from Cons.prems(1) have m: "arith_text m" by simp
  then have ne: "m \<noteq> []" by (auto simp: arith_text_def)
  note keep = replace_from_keeps_token [OF m assms(2) assms(3) Cons.prems(2)]
  from Cons.prems(3) obtain v where v: "py_eval m = Inr v"
    by (cases "py_eval m") auto
  from Cons.prems(3) v obtain r where r: "py_round2 v = Inr r"
    by (cases "py_round2 v") auto
  let ?X = "replace_from m (num_str r) X"
  let ?Y = "replace_from m (num_str r) Y"
  from Cons.prems(3) v r ne keep(1) [of "num_str r" X]
  have run: "eval_loop ms (?X @ t0 # T @ ?Y) = Inr line"
    by (simp add: replace_def)
  have shield: "\<not> arith_char (last (t0 # T)) \<or> ?Y = [] \<or> \<not> arith_char (hd ?Y)"
    using Cons.prems(2) keep(2) [of "num_str r"] keep(3) [of "num_str r"] by (cases "Y = []") auto
  from Cons.IH [OF _ shield run] Cons.prems(1) show ?case by simp
qed

lemma eval_loop_Inl:
  "eval_loop ms c = Inl e \<Longrightarrow> \<exists>m \<in> set ms. fold_text m = Inl e"
proof (induction ms arbitrary: c)
  case Nil
  then show ?case by simp
next
  case (Cons m ms)
  show ?case
  proof (cases "fold_text m")
    case (Inl e')
    with Cons.prems have "e' = e"
      by (auto simp: fold_text_def split: sum.splits)
    with Inl show ?thesis by simp
  next
    case (Inr t)
    with Cons.prems obtain c' where "eval_loop ms c' = Inl e"
      by (auto simp: fold_text_def split: sum.splits)
    from Cons.IH [OF this] show ?thesis by auto
  qed
qed

lemma eval_loop_error:
  "m \<in> set ms \<Longrightarrow> py_eval m = Inl e \<Longrightarrow> \<exists>e'. eval_loop ms c = Inl e'"
proof (induction ms arbitrary: c)
  case Nil
  then show ?case by simp
next
  case (Cons a ms)
  show ?case
  proof (cases "py_eval a")
    case (Inl e1)
    then show ?thesis by simp
  next
    case (Inr v)
    with Cons.prems have "m \<in> set ms" by auto
    from Cons.IH [OF this Cons.prems(2)] Inr show ?thesis
      by (cases "py_round2 v") auto
  qed
qed






text \<open>
  C6: if the pattern matches an expression in the string whose evaluation fails, then
  \<open>eval_expressions\<close> ends with an error and returns no string.
\<close>

theorem fold_error_propagates:
  assumes "m \<in> set (findall s)" and "py_eval m = Inl e"
  shows "\<exists>e'. eval_expressions s = Inl e'"
  using assms by (simp add: eval_expressions_def eval_loop_error)

theorem fold_error_propagates_witness:
  "''1/0'' \<in> set (findall ''set_max_delay 1/0'') \<and> py_eval ''1/0'' = Inl ZeroDivisionError \<and>
   (\<exists>e'. eval_expressions ''set_max_delay 1/0'' = Inl e')"
proof -
  have m: "''1/0'' \<in> set (findall ''set_max_delay 1/0'')"
    by code_simp
  have e: "py_eval ''1/0'' = Inl ZeroDivisionError"
    by code_simp
  from fold_error_propagates [OF m e] m e show ?thesis by simp
qed

text \<open>
  C7: the claim that each matched expression is replaced by its numeric result fails on
  the code. In \<open>1+2 11+22\<close> the pattern matches \<open>1+2\<close> and \<open>11+22\<close>; the loop replaces the
  text \<open>1+2\<close> wherever it occurs, also inside the second match, and the text \<open>11+22\<close> is
  then gone: the result is \<open>3 132\<close>, and the value \<open>33\<close> of the second match never appears.
\<close>

theorem overlapping_match_not_folded:
  "findall ''1+2 11+22'' = [''1+2'', ''11+22''] \<and> fold_text ''1+2'' = Inr ''3'' \<and>
   fold_text ''11+22'' = Inr ''33'' \<and> eval_expressions ''1+2 11+22'' = Inr ''3 132''"
  by code_simp

text \<open>
  The two examples of C7 do hold, and a match is rounded to two decimal places, half to
  even on the binary value, before it is rendered.
\<close>

lemma fold_examples:
  "eval_expressions ''10.0 + 2.5'' = Inr ''12.5''"
  "eval_expressions ''3 - 1.25'' = Inr ''1.75''"
  "eval_expressions ''0.999*1'' = Inr ''1.0''"
  "eval_expressions ''2/3'' = Inr ''0.67''"
  "eval_expressions ''1/3'' = Inr ''0.33''"
  "eval_expressions ''0.125*1'' = Inr ''0.12''"
  "eval_expressions ''2.675*1'' = Inr ''2.67''"
  by code_simp+

text \<open>
  C9: if the evaluator finds no match in its own output, running it on that output
  returns the output unchanged.
\<close>

theorem evaluation_idempotent:
  assumes "eval_expressions s = Inr s'" and "findall s' = []"
  shows "eval_expressions s' = Inr s'"
  using assms(2) by (simp add: eval_expressions_def)

theorem evaluation_idempotent_witness:
  "eval_expressions ''set_delay 1.5*2 ns'' = Inr ''set_delay 3.0 ns'' \<and>
   findall ''set_delay 3.0 ns'' = [] \<and>
   eval_expressions ''set_delay 3.0 ns'' = Inr ''set_delay 3.0 ns''"
proof -
  have a: "eval_expressions ''set_delay 1.5*2 ns'' = Inr ''set_delay 3.0 ns''"
    by code_simp
  have b: "findall ''set_delay 3.0 ns'' = []"
    by code_simp
  from evaluation_idempotent [OF a b] a b show ?thesis by simp
qed

section \<open>Properties of the generation pipeline\<close>

lemma gen_loop_result:
  "gen_loop gc ifc cs acc = Inr lines \<longleftrightarrow>
   (\<exists>ls. lines = acc @ ls \<and>
     list_all2 (\<lambda>t line. eval_expressions (variable_sub ifc t) = Inr line) (List.map_filter gc cs) ls)"
proof (induction cs arbitrary: acc)
  case Nil
  then show ?case by (auto simp: List.map_filter_simps)
next
  case (Cons c cs)
  show ?case
  proof (cases "gc c")
    case None
    with Cons show ?thesis by (simp add: List.map_filter_simps)
  next
    case (Some t)
    show ?thesis
    proof (cases "eval_expressions (variable_sub ifc t)")
      case (Inl e)
      with Some show ?thesis by (simp add: List.map_filter_simps list_all2_Cons1)
    next
      case (Inr line)
      with Some Cons show ?thesis
        by (auto simp: List.map_filter_simps list_all2_Cons1)
    qed
  qed
qed

text \<open>
  C5: \<open>gen_constraints\<close> returns a list of lines exactly when the lines are, in the order
  of the constraint list, one per constraint whose template is not \<open>None\<close>, each the
  result of the evaluator on the substituted template; a constraint without a template
  adds no line and no error.
\<close>

theorem gen_constraints_postcondition:
  "gen_constraints gen_constraint ifc = Inr lines \<longleftrightarrow>
   list_all2 (\<lambda>t line. eval_expressions (variable_sub ifc t) = Inr line)
     (List.map_filter gen_constraint (constraints ifc)) lines"
  by (simp add: gen_constraints_def gen_loop_result)

theorem gen_constraints_postcondition_witness:
  "gen_constraints id
     (example_ifc [example_pc ''tco'' (PyNum (PInt 3))] [example_signal ''clk'' (PyStr ''sys_clk'')]
        [Some ''set_output_delay $tco + 0.5 -clock $clk'', None, Some ''set_false_path -from $clk''])
   = Inr [''set_output_delay 3.5 -clock sys_clk'', ''set_false_path -from sys_clk'']"
proof -
  let ?ifc = "example_ifc [example_pc ''tco'' (PyNum (PInt 3))]
        [example_signal ''clk'' (PyStr ''sys_clk'')]
        [Some ''set_output_delay $tco + 0.5 -clock $clk'', None, Some ''set_false_path -from $clk'']"
  have ts: "List.map_filter id (constraints ?ifc) =
      [''set_output_delay $tco + 0.5 -clock $clk'', ''set_false_path -from $clk'']"
    by code_simp
  have l1: "eval_expressions (variable_sub ?ifc ''set_output_delay $tco + 0.5 -clock $clk'') =
      Inr ''set_output_delay 3.5 -clock sys_clk''"
    by code_simp
  have l2: "eval_expressions (variable_sub ?ifc ''set_false_path -from $clk'') =
      Inr ''set_false_path -from sys_clk''"
    by code_simp
  show ?thesis
    unfolding gen_constraints_postcondition ts using l1 l2 by simp
qed

lemma map_filter_member: "x \<in> set xs \<Longrightarrow> f x = Some y \<Longrightarrow> y \<in> set (List.map_filter f xs)"
  by (induction xs) (auto simp: List.map_filter_simps split: option.splits)

lemma list_all2_member:
  "list_all2 P xs ys \<Longrightarrow> x \<in> set xs \<Longrightarrow> \<exists>y \<in> set ys. P x y"
  by (induction rule: list_all2_induct) auto

text \<open>
  C4, as stated, fails, for the engine and for the pipeline. The name \<open>unknown_name\<close> is
  a key of no collection, but the key \<open>unknown\<close> is a prefix of it and its pass rewrites
  the token. With no variables at all, the evaluator folds the digit at the end of the
  token \<open>$t1\<close> with the offset behind it, and the arithmetic inside the token \<open>$a1+2b\<close>.
  A name that holds the marker reaches across the marker of the token \<open>$x\<close>. And the token
  \<open>$unknown\<close>, followed by the text \<open>_name\<close>, belongs to the name \<open>unknown_name\<close>.
\<close>

theorem unresolved_token_counterexample:
  "variable_sub (example_ifc [example_pc ''unknown'' (PyNum (PInt 7))] [] []) ''$unknown_name'' =
     ''7_name'' \<and>
   gen_constraints id (example_ifc [] [] [Some ''set_max_delay $t1 + 2'']) =
     Inr [''set_max_delay $t3''] \<and>
   gen_constraints id (example_ifc [] [] [Some ''get_ports $a1+2b'']) = Inr [''get_ports $a3b''] \<and>
   variable_sub (example_ifc [example_pc ''$x'' (PyNum (PInt 1))] [] []) ''$$x'' = ''1'' \<and>
   variable_sub (example_ifc [example_pc ''unknown_name'' (PyNum (PInt 7))] [] []) ''$unknown_name'' =
     ''7''"
  by code_simp

text \<open>
  C4, amended: let no name of the four collections hold the marker. A token \<open>$u\<close> anywhere
  in a template is left verbatim by the engine, the text before and the text behind it
  being substituted on their own, if no name occurs, with the marker before it, in the
  token (no name is a prefix of \<open>u\<close>) and the character behind the token, where there is
  one, is not the marker and occurs in no name. If moreover \<open>u\<close> holds no operator
  character, and the token does not end in a character of the evaluator's pattern, or
  ends the template, or is followed by a character that is none of the pattern, the
  pipeline leaves the token verbatim as well: every line that
  the evaluator or \<open>gen_constraints\<close> returns for the template holds the token, and an
  error can only be the error of an arithmetic match.
\<close>

theorem unresolved_token_passes:
  assumes "\<forall>k \<in> fst ` set (all_items ifc). CHR ''$'' \<notin> set k"
    and "\<forall>k \<in> fst ` set (all_items ifc). \<not> sublist (CHR ''$'' # k) (CHR ''$'' # u)"
    and "post = [] \<or> delimits (hd post) (fst ` set (all_items ifc))"
  shows "variable_sub ifc (pre @ CHR ''$'' # u @ post) =
           variable_sub ifc pre @ CHR ''$'' # u @ variable_sub ifc post \<and>
    ((\<forall>c \<in> set u. \<not> is_op c) \<and>
     (\<not> arith_char (last (CHR ''$'' # u)) \<or> post = [] \<or> \<not> arith_char (hd post)) \<longrightarrow>
       (\<forall>line. eval_expressions (variable_sub ifc (pre @ CHR ''$'' # u @ post)) = Inr line \<longrightarrow>
          (\<exists>X Y. line = X @ CHR ''$'' # u @ Y)) \<and>
       (\<forall>e. eval_expressions (variable_sub ifc (pre @ CHR ''$'' # u @ post)) = Inl e \<longrightarrow>
          (\<exists>m \<in> set (findall (variable_sub ifc (pre @ CHR ''$'' # u @ post))). fold_text m = Inl e)) \<and>
       (\<forall>lines c. gen_constraints gen_constraint ifc = Inr lines \<and> c \<in> set (constraints ifc) \<and>
          gen_constraint c = Some (pre @ CHR ''$'' # u @ post) \<longrightarrow>
          (\<exists>line \<in> set lines. \<exists>X Y. line = X @ CHR ''$'' # u @ Y)))"
proof -
  let ?t = "pre @ CHR ''$'' # u @ post"
  let ?X = "variable_sub ifc pre"
  let ?Y = "variable_sub ifc post"
  have sub: "variable_sub ifc ?t = ?X @ CHR ''$'' # u @ ?Y"
    unfolding variable_sub_items by (rule sub_items_unresolved [OF assms])
  have err: "\<exists>m \<in> set (findall (variable_sub ifc ?t)). fold_text m = Inl e"
    if "eval_expressions (variable_sub ifc ?t) = Inl e" for e
    using that by (simp add: eval_expressions_def eval_loop_Inl)
  {
    assume noop: "\<forall>c \<in> set u. \<not> is_op c"
      and shield: "\<not> arith_char (last (CHR ''$'' # u)) \<or> post = [] \<or> \<not> arith_char (hd post)"
    have Y: "\<not> arith_char (last (CHR ''$'' # u)) \<or> ?Y = [] \<or> \<not> arith_char (hd ?Y)"
    proof (cases post)
      case Nil
      then show ?thesis by (simp add: variable_sub_items sub_items_Nil)
    next
      case (Cons c q)
      with assms(3) have "delimits c (fst ` set (all_items ifc))" by simp
      from sub_items_split [OF this, of "[]" q] Cons have "hd ?Y = hd post"
        by (simp add: variable_sub_items sub_items_Nil)
      with shield Cons show ?thesis by auto
    qed
    have marker: "\<not> arith_char (CHR ''$'')"
      by (simp add: arith_char_def is_num_def is_space_def is_op_def)
    have noop': "\<forall>c \<in> set (CHR ''$'' # u). \<not> is_op c"
      using noop by (simp add: is_op_def)
    have line: "\<exists>X Y. line = X @ CHR ''$'' # u @ Y"
      if "eval_expressions (variable_sub ifc ?t) = Inr line" for line
    proof -
      from that have "eval_loop (findall (variable_sub ifc ?t)) (?X @ CHR ''$'' # u @ ?Y) = Inr line"
        by (simp add: eval_expressions_def sub)
      moreover have "\<forall>m \<in> set (findall (variable_sub ifc ?t)). arith_text m"
        by (simp add: findall_texts)
      ultimately show ?thesis
        using eval_loop_keeps_token [OF _ marker noop' Y] by blast
    qed
    have "\<exists>line \<in> set lines. \<exists>X Y. line = X @ CHR ''$'' # u @ Y"
      if "gen_constraints gen_constraint ifc = Inr lines" "c \<in> set (constraints ifc)"
        "gen_constraint c = Some ?t" for lines c
    proof -
      from that(1) have all2: "list_all2 (\<lambda>t line. eval_expressions (variable_sub ifc t) = Inr line)
          (List.map_filter gen_constraint (constraints ifc)) lines"
        by (simp add: gen_constraints_def gen_loop_result)
      from that(2,3) have "?t \<in> set (List.map_filter gen_constraint (constraints ifc))"
        by (rule map_filter_member)
      from list_all2_member [OF all2 this] line show ?thesis by blast
    qed
    note line this
  }
  with sub err show ?thesis by blast
qed

theorem unresolved_token_passes_witness:
  "variable_sub
     (example_ifc [example_pc ''tsu'' (PyNum (PInt 2))] [example_signal ''clk'' (PyStr ''sys_clk'')]
        [Some ''set_input_delay $tsu + 0.5 [get_ports $unknown_name] -clock $clk''])
     ''set_input_delay $tsu + 0.5 [get_ports $unknown_name] -clock $clk'' =
     ''set_input_delay 2 + 0.5 [get_ports $unknown_name] -clock sys_clk'' \<and>
   gen_constraints id
     (example_ifc [example_pc ''tsu'' (PyNum (PInt 2))] [example_signal ''clk'' (PyStr ''sys_clk'')]
        [Some ''set_input_delay $tsu + 0.5 [get_ports $unknown_name] -clock $clk'']) =
     Inr [''set_input_delay 2.5 [get_ports $unknown_name] -clock sys_clk''] \<and>
   (\<exists>line \<in> set [''set_input_delay 2.5 [get_ports $unknown_name] -clock sys_clk''].
      \<exists>X Y. line = X @ ''$unknown_name'' @ Y)"
proof -
  let ?t = "''set_input_delay $tsu + 0.5 [get_ports $unknown_name] -clock $clk''"
  let ?ifc = "example_ifc [example_pc ''tsu'' (PyNum (PInt 2))]
      [example_signal ''clk'' (PyStr ''sys_clk'')] [Some ?t]"
  let ?pre = "''set_input_delay $tsu + 0.5 [get_ports ''"
  let ?u = "''unknown_name''"
  let ?post = "''] -clock $clk''"
  have t: "?pre @ CHR ''$'' # ?u @ ?post = ?t"
    by simp
  have names: "\<forall>k \<in> fst ` set (all_items ?ifc). CHR ''$'' \<notin> set k"
    by code_simp
  have unresolved: "\<forall>k \<in> fst ` set (all_items ?ifc). \<not> sublist (CHR ''$'' # k) (CHR ''$'' # ?u)"
    by code_simp
  have post: "?post = [] \<or> delimits (hd ?post) (fst ` set (all_items ?ifc))"
    by code_simp
  have noop: "\<forall>c \<in> set ?u. \<not> is_op c"
    by code_simp
  have shield: "\<not> arith_char (last (CHR ''$'' # ?u)) \<or> ?post = [] \<or> \<not> arith_char (hd ?post)"
    by code_simp
  have a: "variable_sub ?ifc ?pre = ''set_input_delay 2 + 0.5 [get_ports ''"
    by code_simp
  have b: "variable_sub ?ifc ?post = ''] -clock sys_clk''"
    by code_simp
  have g: "gen_constraints id ?ifc = Inr [''set_input_delay 2.5 [get_ports $unknown_name] -clock sys_clk'']"
    by code_simp
  have c: "Some ?t \<in> set (constraints ?ifc)" "id (Some ?t) = Some (?pre @ CHR ''$'' # ?u @ ?post)"
    by (simp_all add: example_ifc_def)
  note inst = unresolved_token_passes [OF names unresolved post, of ?pre id]
  from inst have "variable_sub ?ifc (?pre @ CHR ''$'' # ?u @ ?post) =
      variable_sub ?ifc ?pre @ CHR ''$'' # ?u @ variable_sub ?ifc ?post"
    by blast
  then have engine: "variable_sub ?ifc ?t =
      ''set_input_delay 2 + 0.5 [get_ports $unknown_name] -clock sys_clk''"
    unfolding a b by simp
  from inst noop shield g c have
    "\<exists>line \<in> set [''set_input_delay 2.5 [get_ports $unknown_name] -clock sys_clk''].
       \<exists>X Y. line = X @ CHR ''$'' # ?u @ Y"
    by blast
  then have "\<exists>line \<in> set [''set_input_delay 2.5 [get_ports $unknown_name] -clock sys_clk''].
       \<exists>X Y. line = X @ ''$unknown_name'' @ Y"
    by simp
  with engine g show ?thesis by blast
qed

section \<open>Properties of parsing\<close>

lemma parse_kind_unregistered:
  "registry kind = None \<Longrightarrow> ds \<noteq> [] \<Longrightarrow>
   parse_kind registry kind ds acc = Inl (UnknownConstraintKind kind)"
  by (cases ds) (auto simp: factory_def)

lemma parse_constraints_loop_fails:
  assumes "(kind, ds) \<in> set from_yaml" and "registry kind = None" and "ds \<noteq> []"
  shows "\<exists>k. registry k = None \<and>
    parse_constraints_loop registry from_yaml acc = Inl (UnknownConstraintKind k)"
  using assms(1)
proof (induction from_yaml arbitrary: acc)
  case Nil
  then show ?case by simp
next
  case (Cons a rest)
  obtain kind' ds' where a: "a = (kind', ds')" by (cases a)
  show ?case
  proof (cases "registry kind' = None \<and> ds' \<noteq> []")
    case True
    then show ?thesis
      using a by (auto simp: parse_kind_unregistered)
  next
    case False
    with Cons.prems a assms(2,3) have mem: "(kind, ds) \<in> set rest" by auto
    show ?thesis
    proof (cases "parse_kind registry kind' ds' acc")
      case (Inl e)
      have "\<exists>k. registry k = None \<and> e = UnknownConstraintKind k"
        using Inl
      proof (induction ds' arbitrary: acc)
        case Nil
        then show ?case by simp
      next
        case (Cons d ds')
        then show ?case
          by (cases d) (auto simp: factory_def split: option.splits)
      qed
      with Inl a show ?thesis by auto
    next
      case (Inr acc')
      with Cons.IH [OF mem, of acc'] a show ?thesis by simp
    qed
  qed
qed

text \<open>
  C8, as stated, fails: a kind without a constructor in the registry, with no constraint
  under it, never reaches the registry, and parsing returns the empty list.
\<close>

theorem unknown_kind_counterexample:
  "parse_constraints (\<lambda>kind. None :: (string \<Rightarrow> unit \<Rightarrow> unit) option) [(''bogus'', [])] = Inr []"
  by (simp add: parse_constraints_def)

text \<open>
  C8, amended: parsing a constraints section that holds at least one constraint under a
  kind without a registered constructor fails with the error of the registry for an
  unregistered kind; no constraint list is returned.
\<close>

theorem unknown_kind_fails:
  assumes "(kind, ds) \<in> set from_yaml" and "registry kind = None" and "ds \<noteq> []"
  shows "\<exists>k. registry k = None \<and>
    parse_constraints registry from_yaml = Inl (UnknownConstraintKind k)"
  using assms by (simp add: parse_constraints_def parse_constraints_loop_fails)

theorem unknown_kind_fails_witness:
  "\<exists>k. parse_constraints [''set_input_delay'' \<mapsto> (\<lambda>name props. (name, props))]
     [(''set_input_delay'', [(''data_in'', PyNum (PInt 2))]),
      (''bogus'', [(''x'', PyNone)])] = Inl (UnknownConstraintKind k)"
proof -
  let ?reg = "[''set_input_delay'' \<mapsto> (\<lambda>name props. (name, props :: pyval))]"
  let ?yaml = "[(''set_input_delay'', [(''data_in'', PyNum (PInt 2))]), (''bogus'', [(''x'', PyNone)])]"
  have a: "(''bogus'', [(''x'', PyNone)]) \<in> set ?yaml" by simp
  have b: "?reg ''bogus'' = None" by simp
  have c: "[(''x'', PyNone)] \<noteq> []" by simp
  from unknown_kind_fails [of "''bogus''" "[(''x'', PyNone)]" ?yaml ?reg, OF a b c]
  show ?thesis by blast
qed

end
